theory Spec2Isabelle
  imports Main "HOL-Library.Word" "HOL-Library.Sublist"
begin

section \<open>JavaScript strings\<close>

text \<open>
  A JavaScript string is a sequence of UTF-16 code units. The script's regular expression
  has no \<^verbatim>\<open>u\<close> flag and \<^verbatim>\<open>trim\<close>, \<^verbatim>\<open>split\<close>, \<^verbatim>\<open>includes\<close> and \<^verbatim>\<open>endsWith\<close> all work on
  code units, so a string is a list of 16-bit words.
\<close>

type_synonym code_unit = "16 word"
type_synonym jsstring = "code_unit list"

definition js :: "string \<Rightarrow> jsstring" where
  \<comment> \<open>an ASCII literal of the source, as code units\<close>
  "js s = map of_char s"

definition bullet :: jsstring where
  \<comment> \<open>U+2022, the separator of the fallback title and of the footer\<close>
  "bullet = [0x2022]"

definition ellipsis :: jsstring where
  \<comment> \<open>U+2026, which ends the progress lines\<close>
  "ellipsis = [0x2026]"

definition check_mark :: jsstring where
  \<comment> \<open>U+2714, which starts the line logged after a publication\<close>
  "check_mark = [0x2714]"

definition dquote :: jsstring where
  "dquote = [0x22]"

definition nl :: code_unit where
  "nl = 0x0A"

definition is_line_terminator :: "code_unit \<Rightarrow> bool" where
  \<comment> \<open>ECMAScript LineTerminator: LF, CR, LS, PS\<close>
  "is_line_terminator c = (c = 0x0A \<or> c = 0x0D \<or> c = 0x2028 \<or> c = 0x2029)"

definition is_space :: "code_unit \<Rightarrow> bool" where
  \<comment> \<open>ECMAScript WhiteSpace and LineTerminator: what \<^verbatim>\<open>\s\<close> matches and \<^verbatim>\<open>trim\<close> strips\<close>
  "is_space c =
     (c = 0x09 \<or> c = 0x0A \<or> c = 0x0B \<or> c = 0x0C \<or> c = 0x0D \<or> c = 0x20 \<or> c = 0xA0 \<or>
      c = 0x1680 \<or> (0x2000 \<le> c \<and> c \<le> 0x200A) \<or> c = 0x2028 \<or> c = 0x2029 \<or>
      c = 0x202F \<or> c = 0x205F \<or> c = 0x3000 \<or> c = 0xFEFF)"

definition trim :: "jsstring \<Rightarrow> jsstring" where
  \<comment> \<open>\<^verbatim>\<open>String.prototype.trim\<close>\<close>
  "trim s = rev (dropWhile is_space (rev (dropWhile is_space s)))"

fun split_on :: "code_unit \<Rightarrow> jsstring \<Rightarrow> jsstring list" where
  \<comment> \<open>\<^verbatim>\<open>s.split(sep)\<close> for a separator of one code unit: never an empty array\<close>
  "split_on sep [] = [[]]"
| "split_on sep (c # cs) =
     (if c = sep then [] # split_on sep cs
      else (case split_on sep cs of
              [] \<Rightarrow> [[c]]
            | l # ls \<Rightarrow> (c # l) # ls))"

fun join :: "jsstring \<Rightarrow> jsstring list \<Rightarrow> jsstring" where
  \<comment> \<open>\<^verbatim>\<open>Array.prototype.join\<close> on elements already converted to strings\<close>
  "join sep [] = []"
| "join sep [x] = x"
| "join sep (x # y # ys) = x @ sep @ join sep (y # ys)"

fun includes_js :: "jsstring \<Rightarrow> jsstring \<Rightarrow> bool" where
  \<comment> \<open>\<^verbatim>\<open>s.includes(t)\<close>: t occurs in s at some position\<close>
  "includes_js [] t = (t = [])"
| "includes_js (c # cs) t = (prefix t (c # cs) \<or> includes_js cs t)"

definition endsWith :: "jsstring \<Rightarrow> jsstring \<Rightarrow> bool" where
  \<comment> \<open>\<^verbatim>\<open>s.endsWith(t)\<close>\<close>
  "endsWith s t = suffix t s"

fun digits :: "nat \<Rightarrow> jsstring" where
  \<comment> \<open>the decimal digits of a non-negative integer: \<^verbatim>\<open>String(n)\<close> and \<^verbatim>\<open>${n}\<close>\<close>
  "digits n = (if n < 10 then [of_nat (48 + n)] else digits (n div 10) @ [of_nat (48 + n mod 10)])"

definition padStart2 :: "jsstring \<Rightarrow> jsstring" where
  \<comment> \<open>\<^verbatim>\<open>s.padStart(2, "0")\<close>\<close>
  "padStart2 s = replicate (2 - length s) 0x30 @ s"

section \<open>The regular expression of the title\<close>

text \<open>
  The title is found with \<^verbatim>\<open>/^\s*#\s+(.+?)\s*$/.exec(firstLine)\<close>. The pattern is a sequence
  of assertions and quantified character classes; one class stands inside the capture
  group 1. The matcher below backtracks as ECMAScript's does: a greedy quantifier tries the
  longer repetition first, a lazy one the shorter, and the first success is the result.
\<close>

datatype cls = Space | Dot | Chr code_unit

datatype quant = Once | Star | Plus | LazyStar | LazyPlus

datatype node = Bol | Eol | Atom cls quant bool

fun in_cls :: "cls \<Rightarrow> code_unit \<Rightarrow> bool" where
  "in_cls Space c = is_space c"
| "in_cls Dot c = (\<not> is_line_terminator c)"
| "in_cls (Chr d) c = (c = d)"

definition capt :: "bool \<Rightarrow> jsstring \<Rightarrow> code_unit \<Rightarrow> jsstring" where
  \<comment> \<open>a code unit consumed inside the group is added to the capture\<close>
  "capt g cap c = (if g then cap @ [c] else cap)"

fun rmatch :: "node list \<Rightarrow> nat \<Rightarrow> jsstring \<Rightarrow> jsstring \<Rightarrow> jsstring option" where
  \<comment> \<open>the pattern left, the index reached, the input left there, the capture so far\<close>
  "rmatch [] i s cap = Some cap"
| "rmatch (Bol # r) i s cap = (if i = 0 then rmatch r i s cap else None)"
| "rmatch (Eol # r) i s cap = (if s = [] then rmatch r i s cap else None)"
| "rmatch (Atom k Once g # r) i s cap =
     (case s of
        [] \<Rightarrow> None
      | c # cs \<Rightarrow> if in_cls k c then rmatch r (Suc i) cs (capt g cap c) else None)"
| "rmatch (Atom k Star g # r) i s cap =
     (case s of
        [] \<Rightarrow> rmatch r i s cap
      | c # cs \<Rightarrow>
          if in_cls k c
          then (case rmatch (Atom k Star g # r) (Suc i) cs (capt g cap c) of
                  Some res \<Rightarrow> Some res
                | None \<Rightarrow> rmatch r i s cap)
          else rmatch r i s cap)"
| "rmatch (Atom k Plus g # r) i s cap =
     (case s of
        [] \<Rightarrow> None
      | c # cs \<Rightarrow>
          if in_cls k c then rmatch (Atom k Star g # r) (Suc i) cs (capt g cap c) else None)"
| "rmatch (Atom k LazyStar g # r) i s cap =
     (case rmatch r i s cap of
        Some res \<Rightarrow> Some res
      | None \<Rightarrow>
          (case s of
             [] \<Rightarrow> None
           | c # cs \<Rightarrow>
               if in_cls k c
               then rmatch (Atom k LazyStar g # r) (Suc i) cs (capt g cap c)
               else None))"
| "rmatch (Atom k LazyPlus g # r) i s cap =
     (case s of
        [] \<Rightarrow> None
      | c # cs \<Rightarrow>
          if in_cls k c then rmatch (Atom k LazyStar g # r) (Suc i) cs (capt g cap c) else None)"

fun exec_from :: "node list \<Rightarrow> nat \<Rightarrow> jsstring \<Rightarrow> jsstring option" where
  \<comment> \<open>\<^verbatim>\<open>exec\<close> tries every start index from the left; the result is capture group 1\<close>
  "exec_from re i [] = rmatch re i [] []"
| "exec_from re i (c # cs) =
     (case rmatch re i (c # cs) [] of
        Some cap \<Rightarrow> Some cap
      | None \<Rightarrow> exec_from re (Suc i) cs)"

definition exec :: "node list \<Rightarrow> jsstring \<Rightarrow> jsstring option" where
  "exec re s = exec_from re 0 s"

definition heading_re :: "node list" where
  \<comment> \<open>\<^verbatim>\<open>/^\s*#\s+(.+?)\s*$/\<close>\<close>
  "heading_re =
     [Bol, Atom Space Star False, Atom (Chr 0x23) Once False, Atom Space Plus False,
      Atom Dot LazyPlus True, Atom Space Star False, Eol]"

definition first_line :: "jsstring \<Rightarrow> jsstring" where
  \<comment> \<open>\<^verbatim>\<open>text.split("\\n")[0] || ""\<close>\<close>
  "first_line text = (case split_on nl text of [] \<Rightarrow> [] | l # ls \<Rightarrow> l)"

section \<open>Parsed JSON and the values the script reads from it\<close>

text \<open>
  \<^verbatim>\<open>res.json()\<close> gives a JSON value. The script only ever converts a number to a string,
  so a number is kept as the text JavaScript's Number-to-String gives for it. An object holds
  its own properties (after parsing, one per key). \<^verbatim>\<open>undefined\<close>, which only a property
  read produces, is \<open>None\<close> of \<open>json option\<close>.
\<close>

datatype json =
    JNull
  | JBool bool
  | JNum jsstring
  | JStr jsstring
  | JArr "json list"
  | JObj "(jsstring \<times> json) list"

datatype error =
    Error jsstring  \<comment> \<open>\<^verbatim>\<open>throw new Error(message)\<close>\<close>
  | TypeError       \<comment> \<open>a read on \<^verbatim>\<open>null\<close>, a call of what is no function, an object with no string form\<close>
  | Rejected        \<comment> \<open>\<^verbatim>\<open>fetch\<close> or \<^verbatim>\<open>res.json()\<close> rejects: no connection, a body that is not JSON\<close>

fun field :: "jsstring \<Rightarrow> json \<Rightarrow> json option" where
  \<comment> \<open>\<^verbatim>\<open>v.name\<close> on a value that is not \<^verbatim>\<open>null\<close>, for a name no prototype defines and that is no
      index (candidates, content, parts, text, url, canonical_url, id)\<close>
  "field name (JObj kv) = map_of kv name"
| "field name v = None"

fun index0 :: "json \<Rightarrow> json option" where
  \<comment> \<open>\<^verbatim>\<open>v[0]\<close> on a value that is not \<^verbatim>\<open>null\<close>\<close>
  "index0 (JArr xs) = (case xs of [] \<Rightarrow> None | x # _ \<Rightarrow> Some x)"
| "index0 (JStr s) = (case s of [] \<Rightarrow> None | c # _ \<Rightarrow> Some (JStr [c]))"
| "index0 (JObj kv) = map_of kv (js ''0'')"
| "index0 v = None"

definition opt :: "json option \<Rightarrow> (json \<Rightarrow> json option) \<Rightarrow> json option" where
  \<comment> \<open>optional chaining \<^verbatim>\<open>v?.\<close>: \<^verbatim>\<open>undefined\<close> when v is \<^verbatim>\<open>undefined\<close> or \<^verbatim>\<open>null\<close>\<close>
  "opt v f = (case v of None \<Rightarrow> None | Some JNull \<Rightarrow> None | Some x \<Rightarrow> f x)"

fun throws :: "json \<Rightarrow> bool" where
  \<comment> \<open>ToString fails: an object whose own \<^verbatim>\<open>toString\<close> property hides the inherited method
      (a JSON value is never callable, and the inherited \<^verbatim>\<open>valueOf\<close> returns the object)\<close>
  "throws (JObj kv) = (map_of kv (js ''toString'') \<noteq> None)"
| "throws (JArr xs) = list_ex throws xs"
| "throws v = False"

fun to_string :: "json \<Rightarrow> jsstring" where
  \<comment> \<open>ToString where it does not fail; an array joins its elements with a comma, and
      \<^verbatim>\<open>null\<close> inside an array is the empty string\<close>
  "to_string JNull = js ''null''"
| "to_string (JBool b) = (if b then js ''true'' else js ''false'')"
| "to_string (JNum n) = n"
| "to_string (JStr s) = s"
| "to_string (JArr xs) = join (js '','') (map (\<lambda>x. if x = JNull then [] else to_string x) xs)"
| "to_string (JObj kv) = js ''[object Object]''"

definition element_string :: "json option \<Rightarrow> jsstring" where
  \<comment> \<open>what \<^verbatim>\<open>join\<close> makes of one element: \<^verbatim>\<open>undefined\<close> and \<^verbatim>\<open>null\<close> are the empty string\<close>
  "element_string v = (case v of None \<Rightarrow> [] | Some JNull \<Rightarrow> [] | Some x \<Rightarrow> to_string x)"

definition element_throws :: "json option \<Rightarrow> bool" where
  "element_throws v = (case v of None \<Rightarrow> False | Some x \<Rightarrow> throws x)"

definition truthy :: "json option \<Rightarrow> bool" where
  \<comment> \<open>ToBoolean; a JSON number is never NaN, and both zeros print as 0\<close>
  "truthy v =
     (case v of
        None \<Rightarrow> False
      | Some JNull \<Rightarrow> False
      | Some (JBool b) \<Rightarrow> b
      | Some (JNum n) \<Rightarrow> n \<noteq> js ''0''
      | Some (JStr s) \<Rightarrow> s \<noteq> []
      | Some (JArr xs) \<Rightarrow> True
      | Some (JObj kv) \<Rightarrow> True)"

definition template :: "json option \<Rightarrow> error + jsstring" where
  \<comment> \<open>\<^verbatim>\<open>${v}\<close> in a template literal\<close>
  "template v =
     (case v of
        None \<Rightarrow> Inr (js ''undefined'')
      | Some x \<Rightarrow> if throws x then Inl TypeError else Inr (to_string x))"

section \<open>The article generator\<close>

record brief =
  role :: jsstring
  focus :: jsstring
  length_b :: "jsstring option"  \<comment> \<open>absent in every brief of \<^verbatim>\<open>main\<close>: the default applies\<close>

record article =
  title :: jsstring
  markdown :: jsstring
  tags :: "jsstring list"

text \<open>
  What \<^verbatim>\<open>fetch\<close> gives back is decided outside the program: either it rejects, or it
  resolves to a response with a status, a body that \<^verbatim>\<open>res.text()\<close> may or may not read and
  that \<^verbatim>\<open>res.json()\<close> may or may not parse. The prompt sent (lines 39 to 70) has no effect
  on what the script does with the answer and is not part of the model.
\<close>

record response =
  status :: nat
  body_text :: "jsstring option"
  body_json :: "json option"

datatype fetched = Failed | Response response

definition ok :: "response \<Rightarrow> bool" where
  \<comment> \<open>\<^verbatim>\<open>res.ok\<close>\<close>
  "ok res = (200 \<le> status res \<and> status res \<le> 299)"

definition target_length :: "brief \<Rightarrow> jsstring" where
  \<comment> \<open>\<^verbatim>\<open>length = "1200-1500 words"\<close>\<close>
  "target_length b = (case length_b b of None \<Rightarrow> js ''1200-1500 words'' | Some l \<Rightarrow> l)"

definition parts_of :: "json \<Rightarrow> json option" where
  \<comment> \<open>\<^verbatim>\<open>data?.candidates?.[0]?.content?.parts\<close>\<close>
  "parts_of data =
     opt (opt (opt (opt (Some data) (field (js ''candidates''))) index0)
            (field (js ''content''))) (field (js ''parts''))"

definition answer_json :: "jsstring list \<Rightarrow> json" where
  \<comment> \<open>the answer the generation API documents, with one candidate whose parts carry the given
      texts: \<^verbatim>\<open>{"candidates": [{"content": {"parts": [{"text": t}, ...]}}]}\<close>\<close>
  "answer_json ts =
     JObj [(js ''candidates'',
            JArr [JObj [(js ''content'',
                         JObj [(js ''parts'', JArr (map (\<lambda>t. JObj [(js ''text'', JStr t)]) ts))])]])]"

definition response_text :: "json \<Rightarrow> error + jsstring" where
  \<comment> \<open>\<^verbatim>\<open>parts?.map((p) => p.text).join("\n")?.trim() || ""\<close>\<close>
  "response_text data =
     (case parts_of data of
        None \<Rightarrow> Inr []
      | Some JNull \<Rightarrow> Inr []
      | Some (JArr ps) \<Rightarrow>
          if list_ex (\<lambda>p. p = JNull) ps then Inl TypeError
          else let texts = map (field (js ''text'')) ps in
            if list_ex element_throws texts then Inl TypeError
            else let t = trim (join [nl] (map element_string texts)) in
              Inr (if t = [] then [] else t)
      | Some v \<Rightarrow> Inl TypeError)"

definition fallback_title :: "jsstring \<Rightarrow> brief \<Rightarrow> jsstring" where
  \<comment> \<open>line 83\<close>
  "fallback_title stamp b =
     js ''AI & Tech '' @ bullet @ js '' '' @ role b @ js '' '' @ bullet @ js '' '' @ stamp"

definition generateArticle :: "jsstring \<Rightarrow> fetched \<Rightarrow> brief \<Rightarrow> error + article" where
  \<comment> \<open>the stamp is the global of line 25; the second argument is what \<^verbatim>\<open>fetch\<close> gave\<close>
  "generateArticle stamp f b =
     (case f of
        Failed \<Rightarrow> Inl Rejected
      | Response res \<Rightarrow>
          if \<not> ok res then
            Inl (Error (js ''Gemini error '' @ digits (status res) @ js '': '' @
                        (case body_text res of None \<Rightarrow> [] | Some t \<Rightarrow> t)))
          else
            (case body_json res of
               None \<Rightarrow> Inl Rejected
             | Some data \<Rightarrow>
                 (case response_text data of
                    Inl e \<Rightarrow> Inl e
                  | Inr text \<Rightarrow>
                      let firstLine = first_line text;
                          m = exec heading_re firstLine;
                          title = (case m of
                                     Some m1 \<Rightarrow> m1 @ js '' ('' @ stamp @ js '')''
                                   | None \<Rightarrow> fallback_title stamp b);
                          tags = [js ''ai'', js ''machinelearning'', js ''career'',
                                  js ''productivity'', js ''programming'']
                      in Inr \<lparr>title = title, markdown = text, tags = tags\<rparr>)))"

section \<open>The publisher\<close>

record payload =
  p_title :: jsstring
  p_published :: bool
  p_body_markdown :: jsstring
  p_tags :: "jsstring list"
  p_canonical_url :: "jsstring option"

definition publishToDevTo :: "fetched \<Rightarrow> error + json" where
  \<comment> \<open>the argument is what \<^verbatim>\<open>fetch\<close> gave for the payload\<close>
  "publishToDevTo f =
     (case f of
        Failed \<Rightarrow> Inl Rejected
      | Response res \<Rightarrow>
          if \<not> ok res then
            Inl (Error (js ''dev.to publish error '' @ digits (status res) @ js '': '' @
                        (case body_text res of None \<Rightarrow> [] | Some t \<Rightarrow> t)))
          else
            (case body_json res of
               None \<Rightarrow> Inl Rejected
             | Some data \<Rightarrow> Inr data))"

section \<open>The run\<close>

definition finalTitle :: "jsstring \<Rightarrow> jsstring \<Rightarrow> jsstring" where
  \<comment> \<open>line 156\<close>
  "finalTitle stamp t = (if includes_js t stamp then t else t @ js '' ('' @ stamp @ js '')'')"

definition footer :: "jsstring \<Rightarrow> jsstring" where
  \<comment> \<open>lines 157 and 158\<close>
  "footer stamp =
     [nl, nl] @ js ''---'' @ [nl] @ js ''*Auto-published via GitHub Actions '' @ bullet @
     js '' Topic: AI + Tech News & AI Career Advice '' @ bullet @ js '' '' @ stamp @ js ''*''"

definition body :: "jsstring \<Rightarrow> jsstring \<Rightarrow> jsstring" where
  \<comment> \<open>line 159\<close>
  "body stamp md = (if endsWith md (footer stamp) then md else md @ footer stamp)"

definition published_ref :: "json \<Rightarrow> json option" where
  \<comment> \<open>\<^verbatim>\<open>post?.url || post?.canonical_url || post?.id\<close>\<close>
  "published_ref post =
     (let u = opt (Some post) (field (js ''url'')) in
      if truthy u then u
      else let c = opt (Some post) (field (js ''canonical_url'')) in
        if truthy c then c else opt (Some post) (field (js ''id'')))"

datatype event =
    Console_log jsstring
  | Console_error jsstring
  | Console_error_thrown error
  | Fetch_gemini brief
  | Fetch_devto payload
  | Sleep nat

record env =
  DEVTO_API_KEY :: "jsstring option"
  GEMINI_API_KEY :: "jsstring option"
  utc_year :: nat
  utc_month :: nat   \<comment> \<open>\<^verbatim>\<open>getUTCMonth()\<close>, from 0\<close>
  utc_date :: nat
  gemini :: "nat \<Rightarrow> fetched"  \<comment> \<open>the answer to the generation request of iteration i\<close>
  devto :: "nat \<Rightarrow> fetched"   \<comment> \<open>the answer to the publication request of iteration i\<close>

definition stamp_of :: "env \<Rightarrow> jsstring" where
  \<comment> \<open>lines 21 to 25\<close>
  "stamp_of e =
     digits (utc_year e) @ js ''-'' @ padStart2 (digits (utc_month e + 1)) @ js ''-'' @
     padStart2 (digits (utc_date e))"

definition briefs :: "brief list" where
  "briefs =
     [\<lparr>role = js ''Weekly-style AI & Tech roundup (evergreen explainer edition)'',
       focus = js ''Explain key AI trends shaping the past quarter, what they mean for developers and job seekers, and how to stay credible without chasing hype.'',
       length_b = None\<rparr>,
      \<lparr>role = js ''Career playbook using AI'',
       focus = js ''A practical guide to using AI to upskill (projects, portfolios, interview prep), with reproducible workflows and prompts.'',
       length_b = None\<rparr>,
      \<lparr>role = js ''Tooling deep-dive'',
       focus = js ''Compare 2'' @ [0x2013] @ js ''3 free AI tools for developers (e.g., code assistants, data wrangling, docs agents). Show hands-on examples and gotchas.'',
       length_b = None\<rparr>]"

fun loop :: "env \<Rightarrow> jsstring \<Rightarrow> nat \<Rightarrow> brief list \<Rightarrow> event list \<Rightarrow> event list \<times> error option" where
  \<comment> \<open>the \<^verbatim>\<open>for\<close> of \<^verbatim>\<open>main\<close> from index i on, with the briefs left and the events so far;
      the error is the one that rejects \<^verbatim>\<open>main()\<close>\<close>
  "loop e stamp i [] tr = (tr @ [Console_log (js ''All done.'')], None)"
| "loop e stamp i (b # bs) tr =
     (let tr1 = tr @ [Console_log (js ''Generating article '' @ digits (i + 1) @ ellipsis),
                      Fetch_gemini b] in
      case generateArticle stamp (gemini e i) b of
        Inl err \<Rightarrow> (tr1, Some err)
      | Inr a \<Rightarrow>
          let ft = finalTitle stamp (title a);
              bd = body stamp (markdown a);
              pl = \<lparr>p_title = ft, p_published = True, p_body_markdown = bd,
                    p_tags = tags a, p_canonical_url = None\<rparr>;
              tr2 = tr1 @ [Console_log (js ''Publishing to dev.to: '' @ dquote @ ft @ dquote @
                                        ellipsis),
                           Fetch_devto pl] in
          (case publishToDevTo (devto e i) of
             Inl err \<Rightarrow> (tr2, Some err)
           | Inr post \<Rightarrow>
               (case template (published_ref post) of
                  Inl err \<Rightarrow> (tr2, Some err)
                | Inr shown \<Rightarrow>
                    loop e stamp (i + 1) bs
                      (tr2 @ [Console_log (check_mark @ js '' Published: '' @ shown),
                              Sleep 2500]))))"

definition main :: "env \<Rightarrow> jsstring \<Rightarrow> event list \<times> error option" where
  "main e stamp =
     loop e stamp 0 briefs [Console_log (js ''Starting daily run '' @ stamp @ ellipsis)]"

definition missing :: "jsstring option \<Rightarrow> bool" where
  \<comment> \<open>\<^verbatim>\<open>!KEY\<close>: the variable is unset or empty\<close>
  "missing k = (case k of None \<Rightarrow> True | Some v \<Rightarrow> v = [])"

definition program :: "env \<Rightarrow> event list \<times> nat" where
  \<comment> \<open>the whole script: what it does, in order, and the exit status\<close>
  "program e =
     (if missing (DEVTO_API_KEY e) then ([Console_error (js ''Missing DEVTO_API_KEY'')], 1)
      else if missing (GEMINI_API_KEY e) then ([Console_error (js ''Missing GEMINI_API_KEY'')], 1)
      else
        (case main e (stamp_of e) of
           (tr, None) \<Rightarrow> (tr, 0)
         | (tr, Some err) \<Rightarrow> (tr @ [Console_error_thrown err], 1)))"

fun publications :: "event list \<Rightarrow> payload list" where
  \<comment> \<open>the calls of the publisher in a run, in order\<close>
  "publications [] = []"
| "publications (Fetch_devto pl # evs) = pl # publications evs"
| "publications (ev # evs) = publications evs"

fun generations :: "event list \<Rightarrow> brief list" where
  \<comment> \<open>the generation requests of a run, in order\<close>
  "generations [] = []"
| "generations (Fetch_gemini b # evs) = b # generations evs"
| "generations (ev # evs) = generations evs"

section \<open>Strings: occurrence and suffix\<close>

declare digits.simps [simp del]

lemma includes_js_iff: "includes_js s t \<longleftrightarrow> (\<exists>p q. s = p @ t @ q)"
proof (induction s)
  case Nil
  then show ?case by auto
next
  case (Cons c cs)
  show ?case
  proof
    assume "includes_js (c # cs) t"
    then consider "prefix t (c # cs)" | "includes_js cs t" by auto
    then show "\<exists>p q. c # cs = p @ t @ q"
    proof cases
      case 1
      then obtain q where "c # cs = t @ q" by (auto simp: prefix_def)
      then have "c # cs = [] @ t @ q" by simp
      then show ?thesis by blast
    next
      case 2
      with Cons.IH obtain p q where "cs = p @ t @ q" by blast
      then have "c # cs = (c # p) @ t @ q" by simp
      then show ?thesis by blast
    qed
  next
    assume "\<exists>p q. c # cs = p @ t @ q"
    then obtain p q where pq: "c # cs = p @ t @ q" by blast
    show "includes_js (c # cs) t"
    proof (cases p)
      case Nil
      with pq have "prefix t (c # cs)" by (simp add: prefix_def)
      then show ?thesis by simp
    next
      case (Cons a p')
      with pq have "cs = p' @ t @ q" by simp
      with Cons.IH have "includes_js cs t" by blast
      then show ?thesis by simp
    qed
  qed
qed

lemma includes_js_sublist: "includes_js s t \<longleftrightarrow> sublist t s"
  by (auto simp: includes_js_iff sublist_def)

lemma includes_js_stamped: "includes_js (h @ js '' ('' @ stamp @ js '')'') stamp"
  unfolding includes_js_iff by (rule exI [of _ "h @ js '' (''"], rule exI [of _ "js '')''"]) simp

lemma includes_js_fallback: "includes_js (fallback_title stamp b) stamp"
  unfolding includes_js_iff fallback_title_def
  by (rule exI [of _ "js ''AI & Tech '' @ bullet @ js '' '' @ role b @ js '' '' @ bullet @ js '' ''"],
      rule exI [of _ "[]"]) simp

lemma endsWith_appended: "endsWith (md @ t) t"
  by (simp add: endsWith_def suffix_def)

section \<open>What the heading pattern matches\<close>

text \<open>
  The equations of the matcher are unfolded one step at a time, by the lemmas that follow.
\<close>

declare rmatch.simps [simp del]

lemma exec_from_Bol_later: "exec_from (Bol # r) (Suc i) s = None"
  by (induction s arbitrary: i) (simp_all add: rmatch.simps)

lemma exec_Bol: "exec (Bol # r) s = rmatch r 0 s []"
  by (cases s) (simp_all add: exec_def exec_from_Bol_later rmatch.simps split: option.splits)

lemma rmatch_Eol: "rmatch [Eol] i s cap = (if s = [] then Some cap else None)"
  by (simp add: rmatch.simps)

lemma rmatch_Once_Nil: "rmatch (Atom k Once g # r) i [] cap = None"
  by (simp add: rmatch.simps)

lemma rmatch_Once_Cons:
  "rmatch (Atom k Once g # r) i (c # cs) cap =
     (if in_cls k c then rmatch r (Suc i) cs (capt g cap c) else None)"
  by (simp add: rmatch.simps)

lemma rmatch_Star_Nil: "rmatch (Atom k Star g # r) i [] cap = rmatch r i [] cap"
  by (simp add: rmatch.simps)

lemma rmatch_Star_Cons:
  "rmatch (Atom k Star g # r) i (c # cs) cap =
     (if in_cls k c
      then (case rmatch (Atom k Star g # r) (Suc i) cs (capt g cap c) of
              Some res \<Rightarrow> Some res
            | None \<Rightarrow> rmatch r i (c # cs) cap)
      else rmatch r i (c # cs) cap)"
  by (subst rmatch.simps) simp

lemma rmatch_Plus_Nil: "rmatch (Atom k Plus g # r) i [] cap = None"
  by (simp add: rmatch.simps)

lemma rmatch_Plus_Cons:
  "rmatch (Atom k Plus g # r) i (c # cs) cap =
     (if in_cls k c then rmatch (Atom k Star g # r) (Suc i) cs (capt g cap c) else None)"
  by (subst rmatch.simps) simp

lemma rmatch_LazyStar:
  "rmatch (Atom k LazyStar g # r) i s cap =
     (case rmatch r i s cap of
        Some res \<Rightarrow> Some res
      | None \<Rightarrow>
          (case s of
             [] \<Rightarrow> None
           | c # cs \<Rightarrow>
               if in_cls k c
               then rmatch (Atom k LazyStar g # r) (Suc i) cs (capt g cap c)
               else None))"
  by (rule rmatch.simps)

lemma rmatch_LazyPlus_Nil: "rmatch (Atom k LazyPlus g # r) i [] cap = None"
  by (simp add: rmatch.simps)

lemma rmatch_LazyPlus_Cons:
  "rmatch (Atom k LazyPlus g # r) i (c # cs) cap =
     (if in_cls k c then rmatch (Atom k LazyStar g # r) (Suc i) cs (capt g cap c) else None)"
  by (subst rmatch.simps) simp

lemma rmatch_spaces_Eol:
  "rmatch [Atom Space Star False, Eol] i s cap = (if list_all is_space s then Some cap else None)"
  by (induction s arbitrary: i)
     (simp_all add: rmatch_Star_Nil rmatch_Star_Cons rmatch_Eol capt_def)

lemma rmatch_lazy_step:
  "rmatch [Atom Dot LazyStar True, Atom Space Star False, Eol] i s cap =
     (if list_all is_space s then Some cap
      else (case s of
              [] \<Rightarrow> None
            | c # cs \<Rightarrow>
                if is_line_terminator c then None
                else rmatch [Atom Dot LazyStar True, Atom Space Star False, Eol] (Suc i) cs
                       (cap @ [c])))"
  by (subst rmatch_LazyStar) (simp add: rmatch_spaces_Eol capt_def split: list.splits)

lemma rmatch_lazy_sound:
  "rmatch [Atom Dot LazyStar True, Atom Space Star False, Eol] i s cap = Some res \<Longrightarrow>
   \<exists>h w. s = h @ w \<and> list_all is_space w \<and> list_all (\<lambda>c. \<not> is_line_terminator c) h \<and>
         res = cap @ h"
proof (induction s arbitrary: i cap)
  case Nil
  then show ?case by (subst (asm) rmatch_lazy_step) simp
next
  case (Cons c cs)
  show ?case
  proof (cases "list_all is_space (c # cs)")
    case True
    with Cons.prems have "res = cap" by (subst (asm) rmatch_lazy_step) simp
    with True have "c # cs = [] @ (c # cs) \<and> list_all is_space (c # cs) \<and>
        list_all (\<lambda>c. \<not> is_line_terminator c) [] \<and> res = cap @ []" by simp
    then show ?thesis by blast
  next
    case False
    with Cons.prems have nlt: "\<not> is_line_terminator c"
      and rec: "rmatch [Atom Dot LazyStar True, Atom Space Star False, Eol] (Suc i) cs (cap @ [c]) =
                Some res"
      by (subst (asm) rmatch_lazy_step, simp split: if_splits)+
    from Cons.IH [OF rec] obtain h w where
      "cs = h @ w" "list_all is_space w" "list_all (\<lambda>c. \<not> is_line_terminator c) h"
      "res = (cap @ [c]) @ h" by blast
    with nlt have "c # cs = (c # h) @ w \<and> list_all is_space w \<and>
        list_all (\<lambda>c. \<not> is_line_terminator c) (c # h) \<and> res = cap @ (c # h)" by simp
    then show ?thesis by blast
  qed
qed

lemma rmatch_lazy_complete:
  "list_all is_space w \<Longrightarrow> list_all (\<lambda>c. \<not> is_line_terminator c) h \<Longrightarrow>
   (h \<noteq> [] \<Longrightarrow> \<not> is_space (last h)) \<Longrightarrow>
   rmatch [Atom Dot LazyStar True, Atom Space Star False, Eol] i (h @ w) cap = Some (cap @ h)"
proof (induction h arbitrary: i cap)
  case Nil
  then show ?case by (subst rmatch_lazy_step) simp
next
  case (Cons c t)
  from Cons.prems(3) have "\<not> is_space (last (c # t))" by simp
  then have "\<not> list_all is_space (c # t)"
    by (metis last_in_set list.distinct(1) list_all_iff)
  then have ns: "\<not> list_all is_space ((c # t) @ w)" by auto
  from Cons.prems(2) have nlt: "\<not> is_line_terminator c"
    and t: "list_all (\<lambda>c. \<not> is_line_terminator c) t" by simp_all
  from Cons.prems(3) have "t \<noteq> [] \<Longrightarrow> \<not> is_space (last t)" by simp
  from Cons.IH [OF Cons.prems(1) t this]
  have "rmatch [Atom Dot LazyStar True, Atom Space Star False, Eol] (Suc i) (t @ w) (cap @ [c]) =
        Some ((cap @ [c]) @ t)" .
  with ns nlt show ?case by (subst rmatch_lazy_step) simp
qed

lemma rmatch_group_sound:
  assumes "rmatch [Atom Dot LazyPlus True, Atom Space Star False, Eol] i s cap = Some res"
  shows "\<exists>h w. s = h @ w \<and> h \<noteq> [] \<and> list_all is_space w \<and>
               list_all (\<lambda>c. \<not> is_line_terminator c) h \<and> res = cap @ h"
proof (cases s)
  case Nil
  with assms show ?thesis by (simp add: rmatch_LazyPlus_Nil)
next
  case (Cons c cs)
  with assms have nlt: "\<not> is_line_terminator c"
    and rec: "rmatch [Atom Dot LazyStar True, Atom Space Star False, Eol] (Suc i) cs (cap @ [c]) =
              Some res"
    by (simp_all add: rmatch_LazyPlus_Cons capt_def split: if_splits)
  from rmatch_lazy_sound [OF rec] obtain h w where
    "cs = h @ w" "list_all is_space w" "list_all (\<lambda>c. \<not> is_line_terminator c) h"
    "res = (cap @ [c]) @ h" by blast
  with nlt Cons have "s = (c # h) @ w \<and> c # h \<noteq> [] \<and> list_all is_space w \<and>
      list_all (\<lambda>c. \<not> is_line_terminator c) (c # h) \<and> res = cap @ (c # h)" by simp
  then show ?thesis by blast
qed

lemma rmatch_group_complete:
  assumes "list_all is_space w" "list_all (\<lambda>c. \<not> is_line_terminator c) h" "h \<noteq> []"
    "\<not> is_space (last h)"
  shows "rmatch [Atom Dot LazyPlus True, Atom Space Star False, Eol] i (h @ w) cap = Some (cap @ h)"
proof -
  from assms(3) obtain c t where h: "h = c # t" by (cases h) auto
  with assms(2) have nlt: "\<not> is_line_terminator c"
    and t: "list_all (\<lambda>c. \<not> is_line_terminator c) t" by simp_all
  from assms(4) h have "t \<noteq> [] \<Longrightarrow> \<not> is_space (last t)" by simp
  from rmatch_lazy_complete [OF assms(1) t this]
  have "rmatch [Atom Dot LazyStar True, Atom Space Star False, Eol] (Suc i) (t @ w) (cap @ [c]) =
        Some ((cap @ [c]) @ t)" .
  with nlt h show ?thesis by (simp add: rmatch_LazyPlus_Cons capt_def)
qed

lemma rmatch_gap_sound:
  "rmatch [Atom Space Star False, Atom Dot LazyPlus True, Atom Space Star False, Eol] i s cap =
     Some res \<Longrightarrow>
   \<exists>w2 h w3. s = w2 @ h @ w3 \<and> list_all is_space w2 \<and> h \<noteq> [] \<and> list_all is_space w3 \<and>
              list_all (\<lambda>c. \<not> is_line_terminator c) h \<and> res = cap @ h"
proof (induction s arbitrary: i)
  case Nil
  then show ?case by (simp add: rmatch_Star_Nil rmatch_LazyPlus_Nil)
next
  case (Cons c cs)
  let ?grp = "[Atom Dot LazyPlus True, Atom Space Star False, Eol]"
  have direct: ?case if "rmatch ?grp i (c # cs) cap = Some res"
  proof -
    from rmatch_group_sound [OF that] obtain h w where
      "c # cs = h @ w" "h \<noteq> []" "list_all is_space w"
      "list_all (\<lambda>c. \<not> is_line_terminator c) h" "res = cap @ h" by blast
    then have "c # cs = [] @ h @ w \<and> list_all is_space [] \<and> h \<noteq> [] \<and> list_all is_space w \<and>
        list_all (\<lambda>c. \<not> is_line_terminator c) h \<and> res = cap @ h" by simp
    then show ?thesis by blast
  qed
  show ?case
  proof (cases "is_space c")
    case True
    show ?thesis
    proof (cases "rmatch (Atom Space Star False # ?grp) (Suc i) cs cap")
      case None
      with Cons.prems True have "rmatch ?grp i (c # cs) cap = Some res"
        by (simp add: rmatch_Star_Cons capt_def)
      then show ?thesis by (rule direct)
    next
      case (Some r')
      with Cons.prems True have "r' = res" by (simp add: rmatch_Star_Cons capt_def)
      with Some Cons.IH obtain w2 h w3 where
        "cs = w2 @ h @ w3" "list_all is_space w2" "h \<noteq> []" "list_all is_space w3"
        "list_all (\<lambda>c. \<not> is_line_terminator c) h" "res = cap @ h" by blast
      with True have "c # cs = (c # w2) @ h @ w3 \<and> list_all is_space (c # w2) \<and> h \<noteq> [] \<and>
        list_all is_space w3 \<and> list_all (\<lambda>c. \<not> is_line_terminator c) h \<and> res = cap @ h"
        by simp
      then show ?thesis by blast
    qed
  next
    case False
    with Cons.prems have "rmatch ?grp i (c # cs) cap = Some res"
      by (simp add: rmatch_Star_Cons)
    then show ?thesis by (rule direct)
  qed
qed

lemma rmatch_gap_complete:
  assumes "list_all is_space w2" "h \<noteq> []" "\<not> is_space (hd h)" "\<not> is_space (last h)"
    "list_all (\<lambda>c. \<not> is_line_terminator c) h" "list_all is_space w3"
  shows "rmatch [Atom Space Star False, Atom Dot LazyPlus True, Atom Space Star False, Eol] i
           (w2 @ h @ w3) cap = Some (cap @ h)"
  using assms(1)
proof (induction w2 arbitrary: i)
  case Nil
  from assms(2) obtain c t where h: "h = c # t" by (cases h) auto
  with assms(3) have "\<not> is_space c" by simp
  with h rmatch_group_complete [OF assms(6) assms(5) assms(2) assms(4), of i cap]
  show ?case by (simp add: rmatch_Star_Cons)
next
  case (Cons x xs)
  then have "is_space x" "list_all is_space xs" by simp_all
  with Cons.IH [of "Suc i"] show ?case by (simp add: rmatch_Star_Cons capt_def)
qed

lemma hash_not_space: "\<not> is_space 0x23"
  by (simp add: is_space_def)

lemma rmatch_heading_sound:
  "rmatch [Atom Space Star False, Atom (Chr 0x23) Once False, Atom Space Plus False,
           Atom Dot LazyPlus True, Atom Space Star False, Eol] i s cap = Some res \<Longrightarrow>
   \<exists>w1 w2 h w3. s = w1 @ [0x23] @ w2 @ h @ w3 \<and> list_all is_space w1 \<and>
      list_all is_space w2 \<and> w2 \<noteq> [] \<and> h \<noteq> [] \<and> list_all is_space w3 \<and>
      list_all (\<lambda>c. \<not> is_line_terminator c) h \<and> res = cap @ h"
proof (induction s arbitrary: i)
  case Nil
  then show ?case by (simp add: rmatch_Star_Nil rmatch_Once_Nil)
next
  case (Cons c cs)
  let ?gap = "[Atom Space Star False, Atom Dot LazyPlus True, Atom Space Star False, Eol]"
  let ?hash = "Atom (Chr 0x23) Once False # Atom Space Plus False # tl ?gap"
  have direct: ?case if "rmatch ?hash i (c # cs) cap = Some res"
  proof -
    from that have c: "c = 0x23"
      and r: "rmatch (Atom Space Plus False # tl ?gap) (Suc i) cs cap = Some res"
      by (simp_all add: rmatch_Once_Cons capt_def split: if_splits)
    from r obtain d ds where cs: "cs = d # ds" by (cases cs) (auto simp: rmatch_Plus_Nil)
    with r have d: "is_space d" and g: "rmatch ?gap (Suc (Suc i)) ds cap = Some res"
      by (simp_all add: rmatch_Plus_Cons capt_def split: if_splits)
    from rmatch_gap_sound [OF g] obtain w2 h w3 where
      "ds = w2 @ h @ w3" "list_all is_space w2" "h \<noteq> []" "list_all is_space w3"
      "list_all (\<lambda>c. \<not> is_line_terminator c) h" "res = cap @ h" by blast
    with c cs d have "c # cs = [] @ [0x23] @ (d # w2) @ h @ w3 \<and> list_all is_space [] \<and>
      list_all is_space (d # w2) \<and> d # w2 \<noteq> [] \<and> h \<noteq> [] \<and> list_all is_space w3 \<and>
      list_all (\<lambda>c. \<not> is_line_terminator c) h \<and> res = cap @ h" by simp
    then show ?thesis by blast
  qed
  show ?case
  proof (cases "is_space c")
    case True
    show ?thesis
    proof (cases "rmatch (Atom Space Star False # ?hash) (Suc i) cs cap")
      case None
      with Cons.prems True have "rmatch ?hash i (c # cs) cap = Some res"
        by (simp add: rmatch_Star_Cons capt_def)
      then show ?thesis by (rule direct)
    next
      case (Some r')
      with Cons.prems True have "r' = res" by (simp add: rmatch_Star_Cons capt_def)
      with Some Cons.IH [of "Suc i"] obtain w1 w2 h w3 where
        "cs = w1 @ [0x23] @ w2 @ h @ w3" "list_all is_space w1" "list_all is_space w2"
        "w2 \<noteq> []" "h \<noteq> []" "list_all is_space w3"
        "list_all (\<lambda>c. \<not> is_line_terminator c) h" "res = cap @ h" by auto
      with True have "c # cs = (c # w1) @ [0x23] @ w2 @ h @ w3 \<and> list_all is_space (c # w1) \<and>
        list_all is_space w2 \<and> w2 \<noteq> [] \<and> h \<noteq> [] \<and> list_all is_space w3 \<and>
        list_all (\<lambda>c. \<not> is_line_terminator c) h \<and> res = cap @ h" by simp
      then show ?thesis by blast
    qed
  next
    case False
    with Cons.prems have "rmatch ?hash i (c # cs) cap = Some res"
      by (simp add: rmatch_Star_Cons)
    then show ?thesis by (rule direct)
  qed
qed

lemma rmatch_heading_complete:
  assumes "list_all is_space w1" "list_all is_space w2" "w2 \<noteq> []" "h \<noteq> []"
    "\<not> is_space (hd h)" "\<not> is_space (last h)"
    "list_all (\<lambda>c. \<not> is_line_terminator c) h" "list_all is_space w3"
  shows "rmatch [Atom Space Star False, Atom (Chr 0x23) Once False, Atom Space Plus False,
                 Atom Dot LazyPlus True, Atom Space Star False, Eol] i
           (w1 @ [0x23] @ w2 @ h @ w3) cap = Some (cap @ h)"
  using assms(1)
proof (induction w1 arbitrary: i)
  case Nil
  from assms(3) obtain d ds where w2: "w2 = d # ds" by (cases w2) auto
  with assms(2) have d: "is_space d" and ds: "list_all is_space ds" by simp_all
  from rmatch_gap_complete [OF ds assms(4) assms(5) assms(6) assms(7) assms(8), of "Suc (Suc i)" cap]
    w2 d hash_not_space
  show ?case by (simp add: rmatch_Star_Cons rmatch_Once_Cons rmatch_Plus_Cons capt_def)
next
  case (Cons x xs)
  then have "is_space x" "list_all is_space xs" by simp_all
  with Cons.IH [of "Suc i"] show ?case by (simp add: rmatch_Star_Cons capt_def)
qed

lemma heading_sound:
  assumes "exec heading_re s = Some h"
  shows "\<exists>w1 w2 w3. s = w1 @ [0x23] @ w2 @ h @ w3 \<and> list_all is_space w1 \<and>
      list_all is_space w2 \<and> w2 \<noteq> [] \<and> h \<noteq> [] \<and> list_all is_space w3 \<and>
      list_all (\<lambda>c. \<not> is_line_terminator c) h"
proof -
  from assms have "rmatch [Atom Space Star False, Atom (Chr 0x23) Once False,
      Atom Space Plus False, Atom Dot LazyPlus True, Atom Space Star False, Eol] 0 s [] = Some h"
    by (simp add: heading_re_def exec_Bol)
  from rmatch_heading_sound [OF this] show ?thesis by auto
qed

lemma heading_complete:
  assumes "list_all is_space w1" "list_all is_space w2" "w2 \<noteq> []" "h \<noteq> []"
    "\<not> is_space (hd h)" "\<not> is_space (last h)"
    "list_all (\<lambda>c. \<not> is_line_terminator c) h" "list_all is_space w3"
  shows "exec heading_re (w1 @ [0x23] @ w2 @ h @ w3) = Some h"
  using rmatch_heading_complete [OF assms, of 0 "[]"] by (simp add: heading_re_def exec_Bol)

lemma heading_needs_one_hash_and_space:
  "exec heading_re (js ''## Title'') = None" "exec heading_re (js ''#Title'') = None"
  by (simp_all add: heading_re_def exec_Bol js_def rmatch.simps capt_def is_space_def)

section \<open>What the generator returns\<close>

lemma first_line_Nil: "first_line [] = []"
  by (simp add: first_line_def)

lemma exec_heading_Nil: "exec heading_re [] = None"
  by (simp add: heading_re_def exec_Bol rmatch_Star_Nil rmatch_Once_Nil)

lemma parts_of_answer_json:
  "parts_of (answer_json ts) = Some (JArr (map (\<lambda>t. JObj [(js ''text'', JStr t)]) ts))"
  by (simp add: parts_of_def answer_json_def opt_def js_def)

lemma response_text_strings:
  assumes "parts_of data = Some (JArr ps)"
    and "map (field (js ''text'')) ps = map (\<lambda>t. Some (JStr t)) ts"
  shows "response_text data = Inr (trim (join [nl] ts))"
proof -
  have "p \<noteq> JNull" if "p \<in> set ps" for p
  proof
    assume "p = JNull"
    with that have "None \<in> set (map (field (js ''text'')) ps)" by force
    with assms(2) show False by auto
  qed
  then have a: "\<not> list_ex (\<lambda>p. p = JNull) ps" by (auto simp: list_ex_iff)
  have b: "\<not> list_ex element_throws (map (field (js ''text'')) ps)"
    unfolding assms(2) by (auto simp: list_ex_iff element_throws_def)
  have c: "map element_string (map (field (js ''text'')) ps) = ts"
    unfolding assms(2) by (simp add: element_string_def comp_def)
  from assms(1) a b c show ?thesis by (simp add: response_text_def Let_def)
qed

lemma response_text_answer_json: "response_text (answer_json ts) = Inr (trim (join [nl] ts))"
  by (rule response_text_strings [OF parts_of_answer_json]) (simp add: comp_def js_def)

lemma response_text_lacking:
  "parts_of data = None \<or> parts_of data = Some JNull \<Longrightarrow> response_text data = Inr []"
  by (auto simp: response_text_def)

lemma generateArticle_ok:
  assumes "ok res" "body_json res = Some data" "response_text data = Inr text"
  shows "generateArticle stamp (Response res) b =
           Inr \<lparr>title = (case exec heading_re (first_line text) of
                            Some m1 \<Rightarrow> m1 @ js '' ('' @ stamp @ js '')''
                          | None \<Rightarrow> fallback_title stamp b),
                markdown = text,
                tags = [js ''ai'', js ''machinelearning'', js ''career'', js ''productivity'',
                        js ''programming'']\<rparr>"
  using assms by (simp add: generateArticle_def Let_def)

lemma generateArticle_Inr:
  assumes "generateArticle stamp f b = Inr a"
  shows "\<exists>res data. f = Response res \<and> ok res \<and> body_json res = Some data \<and>
           response_text data = Inr (markdown a) \<and>
           title a = (case exec heading_re (first_line (markdown a)) of
                        Some m1 \<Rightarrow> m1 @ js '' ('' @ stamp @ js '')''
                      | None \<Rightarrow> fallback_title stamp b) \<and>
           tags a = [js ''ai'', js ''machinelearning'', js ''career'', js ''productivity'',
                     js ''programming'']"
  using assms
  by (auto simp: generateArticle_def Let_def split: fetched.splits if_splits option.splits sum.splits)

text \<open>
  C1. When the answer is a success and the first line of its text matches the pattern of line
  85, the generator returns an article whose title is the captured heading text followed by
  a space and the stamp in parentheses. The captured text is what stands on that line after
  optional white space, one \<^verbatim>\<open>#\<close> and at least one white space, up to optional trailing white
  space: it is not empty and holds no line terminator.
\<close>

theorem generateArticle_heading_title:
  assumes "ok res" "body_json res = Some data" "response_text data = Inr text"
    and "exec heading_re (first_line text) = Some h"
  shows "(\<exists>a. generateArticle stamp (Response res) b = Inr a \<and>
              title a = h @ js '' ('' @ stamp @ js '')'') \<and>
         (\<exists>w1 w2 w3. first_line text = w1 @ [0x23] @ w2 @ h @ w3 \<and> list_all is_space w1 \<and>
              list_all is_space w2 \<and> w2 \<noteq> [] \<and> list_all is_space w3 \<and> h \<noteq> [] \<and>
              list_all (\<lambda>c. \<not> is_line_terminator c) h)"
proof
  from generateArticle_ok [OF assms(1-3), of stamp b] assms(4)
  show "\<exists>a. generateArticle stamp (Response res) b = Inr a \<and>
            title a = h @ js '' ('' @ stamp @ js '')''" by simp
next
  from heading_sound [OF assms(4)]
  show "\<exists>w1 w2 w3. first_line text = w1 @ [0x23] @ w2 @ h @ w3 \<and> list_all is_space w1 \<and>
      list_all is_space w2 \<and> w2 \<noteq> [] \<and> list_all is_space w3 \<and> h \<noteq> [] \<and>
      list_all (\<lambda>c. \<not> is_line_terminator c) h" by blast
qed

theorem generateArticle_heading_title_witness:
  "ok \<lparr>status = 200, body_text = None,
       body_json = Some (answer_json [js ''# My Title'' @ [nl] @ js ''Body content''])\<rparr> \<and>
   response_text (answer_json [js ''# My Title'' @ [nl] @ js ''Body content'']) =
     Inr (js ''# My Title'' @ [nl] @ js ''Body content'') \<and>
   exec heading_re (first_line (js ''# My Title'' @ [nl] @ js ''Body content'')) =
     Some (js ''My Title'') \<and>
   (\<exists>a. generateArticle (js ''2024-05-01'')
          (Response \<lparr>status = 200, body_text = None,
             body_json = Some (answer_json [js ''# My Title'' @ [nl] @ js ''Body content''])\<rparr>)
          \<lparr>role = js ''X'', focus = js ''Y'', length_b = None\<rparr> = Inr a \<and>
        title a = js ''My Title (2024-05-01)'')"
proof -
  let ?text = "js ''# My Title'' @ [nl] @ js ''Body content''"
  let ?res = "\<lparr>status = 200, body_text = None, body_json = Some (answer_json [?text])\<rparr>"
  have a: "ok ?res" by (simp add: ok_def)
  have b: "body_json ?res = Some (answer_json [?text])" by simp
  have "trim ?text = ?text" by (simp add: trim_def js_def is_space_def nl_def)
  then have c: "response_text (answer_json [?text]) = Inr ?text"
    by (simp add: response_text_answer_json)
  have "first_line ?text = js ''# My Title''" by (simp add: first_line_def js_def nl_def)
  moreover have "exec heading_re (js ''# My Title'') = Some (js ''My Title'')"
    by (simp add: heading_re_def exec_Bol js_def rmatch.simps capt_def is_space_def
        is_line_terminator_def)
  ultimately have d: "exec heading_re (first_line ?text) = Some (js ''My Title'')" by simp
  have e: "js ''My Title'' @ js '' ('' @ js ''2024-05-01'' @ js '')'' = js ''My Title (2024-05-01)''"
    by (simp add: js_def)
  from generateArticle_heading_title [OF a b c d, of "js ''2024-05-01''"
      "\<lparr>role = js ''X'', focus = js ''Y'', length_b = None\<rparr>"] a c d e
  show ?thesis by simp
qed

text \<open>
  C2. When the answer is a success and the first line of its text does not match the pattern,
  the generator returns an article whose title is the fallback of line 83: the fixed prefix,
  the role of the brief and the stamp, separated by bullets.
\<close>

theorem generateArticle_fallback_title:
  assumes "ok res" "body_json res = Some data" "response_text data = Inr text"
    and "exec heading_re (first_line text) = None"
  shows "\<exists>a. generateArticle stamp (Response res) b = Inr a \<and>
             title a = js ''AI & Tech '' @ bullet @ js '' '' @ role b @ js '' '' @ bullet @
                       js '' '' @ stamp"
  using generateArticle_ok [OF assms(1-3), of stamp b] assms(4)
  by (simp add: fallback_title_def)

theorem generateArticle_fallback_title_witness:
  "ok \<lparr>status = 200, body_text = None,
       body_json = Some (answer_json [js ''Intro'' @ [nl] @ js ''# Late heading''])\<rparr> \<and>
   response_text (answer_json [js ''Intro'' @ [nl] @ js ''# Late heading'']) =
     Inr (js ''Intro'' @ [nl] @ js ''# Late heading'') \<and>
   exec heading_re (first_line (js ''Intro'' @ [nl] @ js ''# Late heading'')) = None \<and>
   (\<exists>a. generateArticle (js ''2024-05-01'')
          (Response \<lparr>status = 200, body_text = None,
             body_json = Some (answer_json [js ''Intro'' @ [nl] @ js ''# Late heading''])\<rparr>)
          \<lparr>role = js ''X'', focus = js ''Y'', length_b = None\<rparr> = Inr a \<and>
        title a = js ''AI & Tech '' @ bullet @ js '' X '' @ bullet @ js '' 2024-05-01'')"
proof -
  let ?text = "js ''Intro'' @ [nl] @ js ''# Late heading''"
  let ?res = "\<lparr>status = 200, body_text = None, body_json = Some (answer_json [?text])\<rparr>"
  have a: "ok ?res" by (simp add: ok_def)
  have b: "body_json ?res = Some (answer_json [?text])" by simp
  have "trim ?text = ?text" by (simp add: trim_def js_def is_space_def nl_def)
  then have c: "response_text (answer_json [?text]) = Inr ?text"
    by (simp add: response_text_answer_json)
  have "first_line ?text = js ''Intro''" by (simp add: first_line_def js_def nl_def)
  moreover have "exec heading_re (js ''Intro'') = None"
    by (simp add: heading_re_def exec_Bol js_def rmatch.simps capt_def is_space_def)
  ultimately have d: "exec heading_re (first_line ?text) = None" by simp
  from generateArticle_fallback_title [OF a b c d, of "js ''2024-05-01''"
      "\<lparr>role = js ''X'', focus = js ''Y'', length_b = None\<rparr>"] a c d
  show ?thesis by (simp add: js_def)
qed

text \<open>
  C5. Whatever the brief and the answer, an article that the generator returns carries the
  fixed list of five tags, in the order of line 89.
\<close>

theorem generateArticle_tags:
  "generateArticle stamp f b = Inr a \<Longrightarrow>
   tags a = [js ''ai'', js ''machinelearning'', js ''career'', js ''productivity'',
             js ''programming'']"
  by (drule generateArticle_Inr) blast

theorem generateArticle_tags_witness:
  "generateArticle (js ''2024-05-01'')
     (Response \<lparr>status = 200, body_text = None, body_json = Some (answer_json [js ''Hello''])\<rparr>)
     \<lparr>role = js ''X'', focus = js ''Y'', length_b = None\<rparr> =
   Inr \<lparr>title = js ''AI & Tech '' @ bullet @ js '' X '' @ bullet @ js '' 2024-05-01'',
        markdown = js ''Hello'',
        tags = [js ''ai'', js ''machinelearning'', js ''career'', js ''productivity'',
                js ''programming'']\<rparr> \<and>
   tags \<lparr>title = js ''AI & Tech '' @ bullet @ js '' X '' @ bullet @ js '' 2024-05-01'',
         markdown = js ''Hello'',
         tags = [js ''ai'', js ''machinelearning'', js ''career'', js ''productivity'',
                 js ''programming'']\<rparr> =
     [js ''ai'', js ''machinelearning'', js ''career'', js ''productivity'', js ''programming'']"
proof -
  let ?res = "\<lparr>status = 200, body_text = None, body_json = Some (answer_json [js ''Hello''])\<rparr>"
  let ?b = "\<lparr>role = js ''X'', focus = js ''Y'', length_b = None\<rparr>"
  have "trim (js ''Hello'') = js ''Hello''" by (simp add: trim_def js_def is_space_def)
  then have c: "response_text (answer_json [js ''Hello'']) = Inr (js ''Hello'')"
    by (simp add: response_text_answer_json)
  have "first_line (js ''Hello'') = js ''Hello''" by (simp add: first_line_def js_def nl_def)
  moreover have "exec heading_re (js ''Hello'') = None"
    by (simp add: heading_re_def exec_Bol js_def rmatch.simps capt_def is_space_def)
  ultimately have d: "exec heading_re (first_line (js ''Hello'')) = None" by simp
  have g: "generateArticle (js ''2024-05-01'') (Response ?res) ?b =
      Inr \<lparr>title = js ''AI & Tech '' @ bullet @ js '' X '' @ bullet @ js '' 2024-05-01'',
           markdown = js ''Hello'',
           tags = [js ''ai'', js ''machinelearning'', js ''career'', js ''productivity'',
                   js ''programming'']\<rparr>"
    using generateArticle_ok [of ?res "answer_json [js ''Hello'']" "js ''Hello''"
        "js ''2024-05-01''" ?b] c d
    by (simp add: ok_def fallback_title_def js_def)
  from generateArticle_tags [OF g] g show ?thesis by simp
qed

text \<open>
  C7. When the answer is a success whose JSON has no value at
  \<^verbatim>\<open>candidates[0].content.parts\<close> (a link of the chain is absent or \<^verbatim>\<open>null\<close>), the generator
  does not fail: it returns an article with the empty body and the fallback title.
\<close>

theorem generateArticle_lenient:
  assumes "ok res" "body_json res = Some data"
    and "parts_of data = None \<or> parts_of data = Some JNull"
  shows "generateArticle stamp (Response res) b =
           Inr \<lparr>title = js ''AI & Tech '' @ bullet @ js '' '' @ role b @ js '' '' @ bullet @
                        js '' '' @ stamp,
                markdown = [],
                tags = [js ''ai'', js ''machinelearning'', js ''career'', js ''productivity'',
                        js ''programming'']\<rparr>"
  using generateArticle_ok [OF assms(1,2) response_text_lacking [OF assms(3)], of stamp b]
  by (simp add: first_line_Nil exec_heading_Nil fallback_title_def)

theorem generateArticle_lenient_witness:
  "ok \<lparr>status = 200, body_text = None,
       body_json = Some (JObj [(js ''candidates'', JArr [])])\<rparr> \<and>
   parts_of (JObj [(js ''candidates'', JArr [])]) = None \<and>
   generateArticle (js ''2024-05-01'')
     (Response \<lparr>status = 200, body_text = None,
        body_json = Some (JObj [(js ''candidates'', JArr [])])\<rparr>)
     \<lparr>role = js ''X'', focus = js ''Y'', length_b = None\<rparr> =
   Inr \<lparr>title = js ''AI & Tech '' @ bullet @ js '' X '' @ bullet @ js '' 2024-05-01'',
        markdown = [],
        tags = [js ''ai'', js ''machinelearning'', js ''career'', js ''productivity'',
                js ''programming'']\<rparr>"
proof -
  let ?data = "JObj [(js ''candidates'', JArr [])]"
  let ?res = "\<lparr>status = 200, body_text = None, body_json = Some ?data\<rparr>"
  have a: "ok ?res" by (simp add: ok_def)
  have b: "body_json ?res = Some ?data" by simp
  have c: "parts_of ?data = None" by (simp add: parts_of_def opt_def)
  then have c': "parts_of ?data = None \<or> parts_of ?data = Some JNull" by simp
  from generateArticle_lenient [OF a b c', of "js ''2024-05-01''"
      "\<lparr>role = js ''X'', focus = js ''Y'', length_b = None\<rparr>"] a c
  show ?thesis by (simp add: js_def)
qed

text \<open>
  C9, as the claim states it, fails: with two parts whose texts are \<^verbatim>\<open>a\<close> and \<^verbatim>\<open>b\<close> the body
  is the two texts with a line feed between them, not their concatenation.
\<close>

theorem generateArticle_body_counterexample:
  "parts_of (answer_json [js ''a'', js ''b'']) =
     Some (JArr [JObj [(js ''text'', JStr (js ''a''))], JObj [(js ''text'', JStr (js ''b''))]]) \<and>
   generateArticle (js ''2024-05-01'')
     (Response \<lparr>status = 200, body_text = None,
        body_json = Some (answer_json [js ''a'', js ''b''])\<rparr>)
     \<lparr>role = js ''X'', focus = js ''Y'', length_b = None\<rparr> =
   Inr \<lparr>title = js ''AI & Tech '' @ bullet @ js '' X '' @ bullet @ js '' 2024-05-01'',
        markdown = js ''a'' @ [nl] @ js ''b'',
        tags = [js ''ai'', js ''machinelearning'', js ''career'', js ''productivity'',
                js ''programming'']\<rparr> \<and>
   js ''a'' @ [nl] @ js ''b'' \<noteq> trim (concat [js ''a'', js ''b''])"
proof -
  let ?data = "answer_json [js ''a'', js ''b'']"
  let ?res = "\<lparr>status = 200, body_text = None, body_json = Some ?data\<rparr>"
  let ?b = "\<lparr>role = js ''X'', focus = js ''Y'', length_b = None\<rparr>"
  have p: "parts_of ?data =
      Some (JArr [JObj [(js ''text'', JStr (js ''a''))], JObj [(js ''text'', JStr (js ''b''))]])"
    by (simp add: parts_of_answer_json)
  have t: "trim (join [nl] [js ''a'', js ''b'']) = js ''a'' @ [nl] @ js ''b''"
    by (simp add: trim_def js_def is_space_def nl_def)
  then have c: "response_text ?data = Inr (js ''a'' @ [nl] @ js ''b'')"
    by (simp add: response_text_answer_json)
  have "first_line (js ''a'' @ [nl] @ js ''b'') = js ''a''"
    by (simp add: first_line_def js_def nl_def)
  moreover have "exec heading_re (js ''a'') = None"
    by (simp add: heading_re_def exec_Bol js_def rmatch.simps capt_def is_space_def)
  ultimately have d: "exec heading_re (first_line (js ''a'' @ [nl] @ js ''b'')) = None" by simp
  have g: "generateArticle (js ''2024-05-01'') (Response ?res) ?b =
      Inr \<lparr>title = js ''AI & Tech '' @ bullet @ js '' X '' @ bullet @ js '' 2024-05-01'',
           markdown = js ''a'' @ [nl] @ js ''b'',
           tags = [js ''ai'', js ''machinelearning'', js ''career'', js ''productivity'',
                   js ''programming'']\<rparr>"
    using generateArticle_ok [of ?res ?data "js ''a'' @ [nl] @ js ''b''" "js ''2024-05-01''" ?b]
      c d
    by (simp add: ok_def fallback_title_def js_def)
  have n: "js ''a'' @ [nl] @ js ''b'' \<noteq> trim (concat [js ''a'', js ''b''])"
    by (simp add: trim_def js_def is_space_def nl_def)
  from p g n show ?thesis by blast
qed

text \<open>
  C9, amended. When the answer is a success whose first candidate has an array of parts and
  every part carries a text string, the generator returns an article whose body is those
  texts, in order, joined with a line feed between consecutive texts, then trimmed.
\<close>

theorem generateArticle_body_joined:
  assumes "ok res" "body_json res = Some data" "parts_of data = Some (JArr ps)"
    and "map (field (js ''text'')) ps = map (\<lambda>t. Some (JStr t)) ts"
  shows "\<exists>a. generateArticle stamp (Response res) b = Inr a \<and>
             markdown a = trim (join [nl] ts)"
  using generateArticle_ok [OF assms(1,2) response_text_strings [OF assms(3,4)], of stamp b]
  by simp

theorem generateArticle_body_joined_witness:
  "ok \<lparr>status = 200, body_text = None,
       body_json = Some (answer_json [js '' # T'', js ''b ''])\<rparr> \<and>
   parts_of (answer_json [js '' # T'', js ''b '']) =
     Some (JArr [JObj [(js ''text'', JStr (js '' # T''))],
                 JObj [(js ''text'', JStr (js ''b ''))]]) \<and>
   map (field (js ''text''))
     [JObj [(js ''text'', JStr (js '' # T''))], JObj [(js ''text'', JStr (js ''b ''))]] =
     map (\<lambda>t. Some (JStr t)) [js '' # T'', js ''b ''] \<and>
   (\<exists>a. generateArticle (js ''2024-05-01'')
          (Response \<lparr>status = 200, body_text = None,
             body_json = Some (answer_json [js '' # T'', js ''b ''])\<rparr>)
          \<lparr>role = js ''X'', focus = js ''Y'', length_b = None\<rparr> = Inr a \<and>
        markdown a = js ''# T'' @ [nl] @ js ''b'')"
proof -
  let ?data = "answer_json [js '' # T'', js ''b '']"
  let ?res = "\<lparr>status = 200, body_text = None, body_json = Some ?data\<rparr>"
  let ?ps = "[JObj [(js ''text'', JStr (js '' # T''))], JObj [(js ''text'', JStr (js ''b ''))]]"
  have a: "ok ?res" by (simp add: ok_def)
  have b: "body_json ?res = Some ?data" by simp
  have p: "parts_of ?data = Some (JArr ?ps)" by (simp add: parts_of_answer_json)
  have m: "map (field (js ''text'')) ?ps = map (\<lambda>t. Some (JStr t)) [js '' # T'', js ''b '']"
    by simp
  have t: "trim (join [nl] [js '' # T'', js ''b '']) = js ''# T'' @ [nl] @ js ''b''"
    by (simp add: trim_def js_def is_space_def nl_def)
  from generateArticle_body_joined [OF a b p m, of "js ''2024-05-01''"
      "\<lparr>role = js ''X'', focus = js ''Y'', length_b = None\<rparr>"] a p m t
  show ?thesis by simp
qed

text \<open>
  C10. The title of every article the generator returns contains the stamp, so the check of
  line 156 leaves it unchanged.
\<close>

theorem generateArticle_title_stamped:
  assumes "generateArticle stamp f b = Inr a"
  shows "includes_js (title a) stamp \<and> finalTitle stamp (title a) = title a"
proof -
  from generateArticle_Inr [OF assms]
  have "title a = (case exec heading_re (first_line (markdown a)) of
                     Some m1 \<Rightarrow> m1 @ js '' ('' @ stamp @ js '')''
                   | None \<Rightarrow> fallback_title stamp b)" by blast
  then have "includes_js (title a) stamp"
    by (simp add: includes_js_stamped includes_js_fallback split: option.splits)
  then show ?thesis by (simp add: finalTitle_def)
qed

theorem generateArticle_title_stamped_witness:
  "generateArticle (js ''2024-05-01'')
     (Response \<lparr>status = 200, body_text = None, body_json = Some (answer_json [js ''# T''])\<rparr>)
     \<lparr>role = js ''X'', focus = js ''Y'', length_b = None\<rparr> =
   Inr \<lparr>title = js ''T (2024-05-01)'', markdown = js ''# T'',
        tags = [js ''ai'', js ''machinelearning'', js ''career'', js ''productivity'',
                js ''programming'']\<rparr> \<and>
   includes_js (js ''T (2024-05-01)'') (js ''2024-05-01'') \<and>
   finalTitle (js ''2024-05-01'') (js ''T (2024-05-01)'') = js ''T (2024-05-01)''"
proof -
  let ?res = "\<lparr>status = 200, body_text = None, body_json = Some (answer_json [js ''# T''])\<rparr>"
  let ?b = "\<lparr>role = js ''X'', focus = js ''Y'', length_b = None\<rparr>"
  have "trim (js ''# T'') = js ''# T''" by (simp add: trim_def js_def is_space_def)
  then have c: "response_text (answer_json [js ''# T'']) = Inr (js ''# T'')"
    by (simp add: response_text_answer_json)
  have "first_line (js ''# T'') = js ''# T''" by (simp add: first_line_def js_def nl_def)
  moreover have "exec heading_re (js ''# T'') = Some (js ''T'')"
    by (simp add: heading_re_def exec_Bol js_def rmatch.simps capt_def is_space_def
        is_line_terminator_def)
  ultimately have d: "exec heading_re (first_line (js ''# T'')) = Some (js ''T'')" by simp
  have g: "generateArticle (js ''2024-05-01'') (Response ?res) ?b =
      Inr \<lparr>title = js ''T (2024-05-01)'', markdown = js ''# T'',
           tags = [js ''ai'', js ''machinelearning'', js ''career'', js ''productivity'',
                   js ''programming'']\<rparr>"
    using generateArticle_ok [of ?res "answer_json [js ''# T'']" "js ''# T''"
        "js ''2024-05-01''" ?b] c d
    by (simp add: ok_def js_def)
  from generateArticle_title_stamped [OF g] g show ?thesis by simp
qed

section \<open>The run normalises title and body\<close>

text \<open>
  C3. The footer-append of the loop (lines 157 to 159): a body that already ends with the exact
  footer is returned unchanged, any other body is returned with the footer appended, and
  applying the operation twice gives what applying it once gives.
\<close>

theorem body_footer_idempotent:
  "(endsWith md (footer stamp) \<longrightarrow> body stamp md = md) \<and>
   (\<not> endsWith md (footer stamp) \<longrightarrow> body stamp md = md @ footer stamp) \<and>
   body stamp (body stamp md) = body stamp md"
  by (simp add: body_def endsWith_appended)

theorem body_footer_idempotent_witness:
  "endsWith (js ''Text'' @ footer (js ''2024-05-01'')) (footer (js ''2024-05-01'')) \<and>
   body (js ''2024-05-01'') (js ''Text'' @ footer (js ''2024-05-01'')) =
     js ''Text'' @ footer (js ''2024-05-01'') \<and>
   \<not> endsWith (js ''Text'') (footer (js ''2024-05-01'')) \<and>
   body (js ''2024-05-01'') (js ''Text'') = js ''Text'' @ footer (js ''2024-05-01'')"
proof -
  have a: "endsWith (js ''Text'' @ footer (js ''2024-05-01'')) (footer (js ''2024-05-01''))"
    by (rule endsWith_appended)
  have "length (js ''Text'') < length (footer (js ''2024-05-01''))"
    by (simp add: footer_def js_def bullet_def)
  then have b: "\<not> endsWith (js ''Text'') (footer (js ''2024-05-01''))"
    by (auto simp: endsWith_def dest: suffix_length_le)
  from a b body_footer_idempotent [of "js ''Text'' @ footer (js ''2024-05-01'')" "js ''2024-05-01''"]
    body_footer_idempotent [of "js ''Text''" "js ''2024-05-01''"]
  show ?thesis by simp
qed

text \<open>
  C4. The title-stamp-append of the loop (line 156): a title in which the stamp occurs anywhere
  is returned unchanged, any other title gets the stamp in parentheses appended, and applying
  the operation twice gives what applying it once gives.
\<close>

theorem finalTitle_idempotent:
  "(includes_js t stamp \<longrightarrow> finalTitle stamp t = t) \<and>
   (\<not> includes_js t stamp \<longrightarrow> finalTitle stamp t = t @ js '' ('' @ stamp @ js '')'') \<and>
   finalTitle stamp (finalTitle stamp t) = finalTitle stamp t"
  by (simp add: finalTitle_def includes_js_stamped)

theorem finalTitle_idempotent_witness:
  "includes_js (js ''News 2024-05-01 edition'') (js ''2024-05-01'') \<and>
   finalTitle (js ''2024-05-01'') (js ''News 2024-05-01 edition'') = js ''News 2024-05-01 edition'' \<and>
   \<not> includes_js (js ''News'') (js ''2024-05-01'') \<and>
   finalTitle (js ''2024-05-01'') (js ''News'') = js ''News (2024-05-01)''"
proof -
  have a: "includes_js (js ''News 2024-05-01 edition'') (js ''2024-05-01'')"
    by (simp add: js_def)
  have b: "\<not> includes_js (js ''News'') (js ''2024-05-01'')"
    by (simp add: js_def)
  from a b finalTitle_idempotent [of "js ''News 2024-05-01 edition''" "js ''2024-05-01''"]
    finalTitle_idempotent [of "js ''News''" "js ''2024-05-01''"]
  show ?thesis by (simp add: js_def)
qed

section \<open>Failures stop the run\<close>

lemma publications_append: "publications (xs @ ys) = publications xs @ publications ys"
  by (induction xs rule: publications.induct) simp_all

lemma generations_append: "generations (xs @ ys) = generations xs @ generations ys"
  by (induction xs rule: generations.induct) simp_all

lemma loop_abort:
  assumes "k < length bs"
    and "generateArticle stamp (gemini e (i + k)) (bs ! k) = Inl err"
  shows "snd (loop e stamp i bs tr) \<noteq> None \<and>
         length (publications (fst (loop e stamp i bs tr))) \<le> length (publications tr) + k \<and>
         length (generations (fst (loop e stamp i bs tr))) \<le> length (generations tr) + k + 1"
  using assms
proof (induction bs arbitrary: i k tr)
  case Nil
  then show ?case by simp
next
  case (Cons b bs)
  show ?case
  proof (cases k)
    case 0
    with Cons.prems show ?thesis
      by (simp add: Let_def publications_append generations_append)
  next
    case (Suc k')
    with Cons.prems have k': "k' < length bs"
      and g: "generateArticle stamp (gemini e (Suc i + k')) (bs ! k') = Inl err"
      by simp_all
    note IH = Cons.IH [OF k' g]
    show ?thesis
    proof (cases "generateArticle stamp (gemini e i) b")
      case (Inl err1)
      then show ?thesis by (simp add: Let_def publications_append generations_append)
    next
      case (Inr a)
      show ?thesis
      proof (cases "publishToDevTo (devto e i)")
        case (Inl err2)
        with Inr Suc show ?thesis by (simp add: Let_def publications_append generations_append)
      next
        case pub: (Inr post)
        show ?thesis
        proof (cases "template (published_ref post)")
          case (Inl err3)
          with Inr pub Suc show ?thesis
            by (simp add: Let_def publications_append generations_append)
        next
          case shown: (Inr shown)
          let ?tr3 = "tr @ [Console_log (js ''Generating article '' @ digits (i + 1) @ ellipsis),
              Fetch_gemini b,
              Console_log (js ''Publishing to dev.to: '' @ dquote @ finalTitle stamp (title a) @
                           dquote @ ellipsis),
              Fetch_devto \<lparr>p_title = finalTitle stamp (title a), p_published = True,
                p_body_markdown = body stamp (markdown a), p_tags = tags a,
                p_canonical_url = None\<rparr>,
              Console_log (check_mark @ js '' Published: '' @ shown), Sleep 2500]"
          have l: "loop e stamp i (b # bs) tr = loop e stamp (Suc i) bs ?tr3"
            using Inr pub shown by (simp add: Let_def)
          from IH [of ?tr3] Suc show ?thesis
            unfolding l by (simp add: publications_append generations_append)
        qed
      qed
    qed
  qed
qed

lemma generateArticle_not_ok:
  assumes "\<not> ok res" "body_text res = Some t"
  shows "generateArticle stamp (Response res) b =
           Inl (Error (js ''Gemini error '' @ digits (status res) @ js '': '' @ t))"
  using assms by (simp add: generateArticle_def)

text \<open>
  C6. When the generation API answers the request of brief k with a status outside 200 to 299
  and a readable body, the generator fails with the error whose message holds that status and
  that body; the script exits with status 1; and the run makes at most k publication requests
  and at most k + 1 generation requests. Each iteration makes one generation request and then
  one publication request, in the order of the briefs, so the publisher is called for briefs
  before k only.
\<close>

theorem generation_failure_aborts:
  assumes "k < length briefs" "gemini e k = Response res" "\<not> ok res" "body_text res = Some t"
  shows "generateArticle (stamp_of e) (gemini e k) (briefs ! k) =
           Inl (Error (js ''Gemini error '' @ digits (status res) @ js '': '' @ t)) \<and>
         snd (program e) = 1 \<and>
         length (publications (fst (program e))) \<le> k \<and>
         length (generations (fst (program e))) \<le> k + 1"
proof -
  have g: "generateArticle (stamp_of e) (gemini e (0 + k)) (briefs ! k) =
             Inl (Error (js ''Gemini error '' @ digits (status res) @ js '': '' @ t))"
    using assms(2-4) by (simp add: generateArticle_not_ok)
  note ab = loop_abort [OF assms(1) g,
      of "[Console_log (js ''Starting daily run '' @ stamp_of e @ ellipsis)]"]
  have "snd (program e) = 1 \<and> length (publications (fst (program e))) \<le> k \<and>
        length (generations (fst (program e))) \<le> k + 1"
  proof (cases "missing (DEVTO_API_KEY e) \<or> missing (GEMINI_API_KEY e)")
    case True
    then show ?thesis by (auto simp: program_def)
  next
    case False
    obtain tr r where m: "main e (stamp_of e) = (tr, r)" by (cases "main e (stamp_of e)")
    with ab have "r \<noteq> None" "length (publications tr) \<le> k" "length (generations tr) \<le> k + 1"
      by (simp_all add: main_def)
    with False m show ?thesis
      by (auto simp: program_def publications_append generations_append)
  qed
  with g show ?thesis by simp
qed

theorem generation_failure_aborts_witness:
  "(let bad = \<lparr>status = 500, body_text = Some (js ''quota exceeded''), body_json = None\<rparr>;
        e = \<lparr>DEVTO_API_KEY = Some (js ''d''), GEMINI_API_KEY = Some (js ''g''),
             utc_year = 2024, utc_month = 4, utc_date = 1,
             gemini = (\<lambda>i. Response (if i = 1 then bad
                          else \<lparr>status = 200, body_text = None,
                                 body_json = Some (answer_json [js ''# T''])\<rparr>)),
             devto = (\<lambda>i. Response \<lparr>status = 201, body_text = None,
                                     body_json = Some (JObj [(js ''id'', JNum (js ''7''))])\<rparr>)\<rparr>
    in 1 < length briefs \<and> gemini e 1 = Response bad \<and> \<not> ok bad \<and>
       generateArticle (stamp_of e) (gemini e 1) (briefs ! 1) =
         Inl (Error (js ''Gemini error 500: quota exceeded'')) \<and>
       snd (program e) = 1 \<and>
       length (publications (fst (program e))) \<le> 1 \<and>
       length (generations (fst (program e))) \<le> 2)"
proof -
  let ?bad = "\<lparr>status = 500, body_text = Some (js ''quota exceeded''), body_json = None\<rparr>"
  let ?e = "\<lparr>DEVTO_API_KEY = Some (js ''d''), GEMINI_API_KEY = Some (js ''g''),
             utc_year = 2024, utc_month = 4, utc_date = 1,
             gemini = (\<lambda>i. Response (if i = 1 then ?bad
                          else \<lparr>status = 200, body_text = None,
                                 body_json = Some (answer_json [js ''# T''])\<rparr>)),
             devto = (\<lambda>i. Response \<lparr>status = 201, body_text = None,
                                     body_json = Some (JObj [(js ''id'', JNum (js ''7''))])\<rparr>)\<rparr>"
  have a: "1 < length briefs" by (simp add: briefs_def)
  have b: "gemini ?e 1 = Response ?bad" by simp
  have c: "\<not> ok ?bad" by (simp add: ok_def)
  have d: "body_text ?bad = Some (js ''quota exceeded'')" by simp
  have m: "js ''Gemini error '' @ digits (status ?bad) @ js '': '' @ js ''quota exceeded'' =
           js ''Gemini error 500: quota exceeded''"
    by (simp add: digits.simps js_def)
  from generation_failure_aborts [OF a b c d] a c m
  show ?thesis unfolding Let_def by simp
qed

text \<open>
  C8. When the publishing key or the generation key is unset (or empty), the script writes one
  line to standard error, naming the publishing key if that one is missing and the generation
  key otherwise, and exits with status 1; it makes no request at all. With both keys missing
  only the first message is written.
\<close>

theorem missing_credential_exits:
  assumes "missing (DEVTO_API_KEY e) \<or> missing (GEMINI_API_KEY e)"
  shows "program e =
           ([Console_error (if missing (DEVTO_API_KEY e) then js ''Missing DEVTO_API_KEY''
                            else js ''Missing GEMINI_API_KEY'')], 1) \<and>
         generations (fst (program e)) = [] \<and> publications (fst (program e)) = []"
  using assms by (auto simp: program_def)

theorem missing_credential_exits_witness:
  "(let e = \<lparr>DEVTO_API_KEY = None, GEMINI_API_KEY = None,
             utc_year = 2024, utc_month = 4, utc_date = 1,
             gemini = (\<lambda>i. Failed), devto = (\<lambda>i. Failed)\<rparr>
    in missing (DEVTO_API_KEY e) \<and> missing (GEMINI_API_KEY e) \<and>
       program e = ([Console_error (js ''Missing DEVTO_API_KEY'')], 1) \<and>
       generations (fst (program e)) = [] \<and> publications (fst (program e)) = [])"
proof -
  let ?e = "\<lparr>DEVTO_API_KEY = None, GEMINI_API_KEY = None,
             utc_year = 2024, utc_month = 4, utc_date = 1,
             gemini = (\<lambda>i. Failed), devto = (\<lambda>i. Failed)\<rparr>"
  have a: "missing (DEVTO_API_KEY ?e)" and b: "missing (GEMINI_API_KEY ?e)"
    by (simp_all add: missing_def)
  from a have "missing (DEVTO_API_KEY ?e) \<or> missing (GEMINI_API_KEY ?e)" ..
  from missing_credential_exits [OF this] a b
  show ?thesis unfolding Let_def by simp
qed

end
